theory Spec2Isabelle
  imports Main
begin

section \<open>NanoDB: the command loop of \<^verbatim>\<open>src/main.c\<close>\<close>

text \<open>
  The program is one C function, \<^verbatim>\<open>main\<close>, that reads standard input with
  \<^verbatim>\<open>fgets\<close> into a 256-byte buffer, cuts the line into tokens with
  \<^verbatim>\<open>strtok(.., " ")\<close> and prints to standard output. Standard input is a finite
  list of bytes followed by end-of-file; standard output is the list of bytes printed.
  Where the C standard leaves the behaviour of a library call undefined (a value
  \<^verbatim>\<open>atoi\<close> cannot represent, a \<^verbatim>\<open>strcpy\<close> past the end of its destination array)
  the model stops with that fact as its result instead of inventing a behaviour.
\<close>

subsection \<open>Bytes and C strings\<close>

abbreviation NUL :: char where "NUL \<equiv> CHR 0x00"

abbreviation NL :: char where "NL \<equiv> CHR 0x0A"

abbreviation SP :: char where "SP \<equiv> CHR 0x20"

abbreviation QUOTE :: char where "QUOTE \<equiv> CHR 0x27"

text \<open>The string a \<^verbatim>\<open>char *\<close> into memory denotes: the bytes before the first NUL.\<close>

definition c_str :: "char list \<Rightarrow> string" where
  "c_str mem = takeWhile (\<lambda>c. c \<noteq> NUL) mem"

subsection \<open>The C library functions that main calls\<close>

text \<open>
  \<^verbatim>\<open>fgets(buf, n, stdin)\<close> stores at most \<open>n - 1\<close> bytes, stops after a newline
  (which it stores) or at end-of-file, and appends a NUL. It returns NULL when
  end-of-file comes before any byte. \<open>fgets_read k\<close> is the read loop with room for
  \<open>k\<close> more bytes; it returns the bytes stored and the rest of the stream.
\<close>

fun fgets_read :: "nat \<Rightarrow> string \<Rightarrow> char list \<times> string" where
  "fgets_read 0 stdin = ([], stdin)"
| "fgets_read (Suc k) [] = ([], [])"
| "fgets_read (Suc k) (c # stdin) =
     (if c = NL then ([c], stdin)
      else (case fgets_read k stdin of (bytes, stdin') \<Rightarrow> (c # bytes, stdin')))"

definition fgets :: "nat \<Rightarrow> string \<Rightarrow> (char list \<times> string) option" where
  "fgets n stdin =
     (case fgets_read (n - 1) stdin of
        ([], _) \<Rightarrow> None
      | (bytes, stdin') \<Rightarrow> Some (bytes @ [NUL], stdin'))"

text \<open>\<^verbatim>\<open>strcspn(s, reject)\<close>: the length of the prefix of \<open>s\<close> free of bytes of \<open>reject\<close>.\<close>

definition strcspn :: "char list \<Rightarrow> string \<Rightarrow> nat" where
  "strcspn s reject = length (takeWhile (\<lambda>c. c \<notin> set reject) (c_str s))"

text \<open>
  \<^verbatim>\<open>strtok\<close> keeps a saved position between calls. The model passes it explicitly:
  \<open>strtok s delim\<close> scans the C string \<open>s\<close> (the first argument of the first call, the
  saved position of a call with NULL) and returns the token, if any, with the new saved
  position. It skips leading delimiters; at the end of the string it returns NULL and
  the saved position stays at the end. Otherwise the token runs to the next delimiter,
  which is overwritten with NUL, and the saved position is the byte after it.
\<close>

definition strtok :: "string \<Rightarrow> string \<Rightarrow> string option \<times> string" where
  "strtok s delim =
     (case dropWhile (\<lambda>c. c \<in> set delim) s of
        [] \<Rightarrow> (None, [])
      | c # cs \<Rightarrow>
          (Some (takeWhile (\<lambda>x. x \<notin> set delim) (c # cs)),
           drop 1 (dropWhile (\<lambda>x. x \<notin> set delim) (c # cs))))"

text \<open>
  \<^verbatim>\<open>atoi\<close> is \<^verbatim>\<open>(int) strtol(s, NULL, 10)\<close>: it skips white space (\<^verbatim>\<open>isspace\<close> in the C
  locale), reads one optional sign and then decimal digits up to the first other byte.
  No digits give 0. A value outside \<^verbatim>\<open>int\<close> (32 bits) is undefined behaviour: \<open>None\<close>.
\<close>

definition isspace :: "char \<Rightarrow> bool" where
  "isspace c = (c \<in> set [SP, CHR 0x09, CHR 0x0A, CHR 0x0B, CHR 0x0C, CHR 0x0D])"

definition isdigit :: "char \<Rightarrow> bool" where
  "isdigit c = (c \<in> set ''0123456789'')"

definition digit_val :: "char \<Rightarrow> int" where
  "digit_val c = int (of_char c) - int (of_char (CHR ''0''))"

fun digits_value :: "int \<Rightarrow> string \<Rightarrow> int" where
  "digits_value acc [] = acc"
| "digits_value acc (c # cs) =
     (if isdigit c then digits_value (acc * 10 + digit_val c) cs else acc)"

definition INT_MIN :: int where "INT_MIN = - (2 ^ 31)"

definition INT_MAX :: int where "INT_MAX = 2 ^ 31 - 1"

definition strtol10 :: "string \<Rightarrow> int" where
  "strtol10 s =
     (case dropWhile isspace s of
        [] \<Rightarrow> 0
      | c # cs \<Rightarrow>
          if c = CHR ''-'' then - digits_value 0 cs
          else if c = CHR ''+'' then digits_value 0 cs
          else digits_value 0 (c # cs))"

definition atoi :: "string \<Rightarrow> int option" where
  "atoi s = (let v = strtol10 s in if INT_MIN \<le> v \<and> v \<le> INT_MAX then Some v else None)"

text \<open>
  \<^verbatim>\<open>strcpy(dst, src)\<close> stores the bytes of \<open>src\<close> and a NUL, \<open>length src + 1\<close> bytes,
  whatever the size of the destination. Where the destination array holds fewer bytes
  the store runs past its end: undefined behaviour, recorded with the array's capacity
  and the number of bytes stored.
\<close>

datatype undefined_behaviour =
    AtoiOutOfRange
  | ArrayOverrun nat nat

definition strcpy :: "nat \<Rightarrow> string \<Rightarrow> undefined_behaviour + string" where
  "strcpy capacity src =
     (if length src + 1 \<le> capacity then Inr src
      else Inl (ArrayOverrun capacity (length src + 1)))"

text \<open>\<^verbatim>\<open>printf("%d", n)\<close>: the decimal digits of \<open>n\<close>, after a minus sign when negative.\<close>

function show_nat :: "nat \<Rightarrow> string" where
  "show_nat n =
     (if n < 10 then [char_of (48 + n)]
      else show_nat (n div 10) @ [char_of (48 + n mod 10)])"
  by pat_completeness auto
termination
  by (relation "measure (\<lambda>n. n)") auto

declare show_nat.simps [simp del]

definition show_int :: "int \<Rightarrow> string" where
  "show_int i = (if i < 0 then CHR ''-'' # show_nat (nat (- i)) else show_nat (nat i))"

subsection \<open>The program\<close>

text \<open>\<^verbatim>\<open>struct Row\<close> (lines 6-10): \<^verbatim>\<open>username\<close> is a 32-byte array, \<^verbatim>\<open>email\<close> a 255-byte one.\<close>

record Row =
  row_id :: int
  username :: string
  email :: string

definition USERNAME_SIZE :: nat where "USERNAME_SIZE = 32"

definition EMAIL_SIZE :: nat where "EMAIL_SIZE = 255"

definition BUF_SIZE :: nat where "BUF_SIZE = 256"

definition prompt :: string where
  "prompt = ''NanoDB> ''"

definition syntax_error :: string where
  "syntax_error = ''syntax error: insert <id> <username> <email>'' @ [NL]"

definition unrecognized :: "string \<Rightarrow> string" where
  "unrecognized command = ''Unrecognized command '' @ [QUOTE] @ command @ [QUOTE] @ ''.'' @ [NL]"

definition inserted :: "Row \<Rightarrow> string" where
  "inserted row =
     ''inserted ID '' @ show_int (row_id row) @ '', user '' @ username row
       @ '', email '' @ email row @ [NL]"

text \<open>
  Lines 20-23: read one chunk into \<^verbatim>\<open>buf\<close> and cut it at its first newline. \<open>None\<close> is
  the \<^verbatim>\<open>break\<close> of line 21; otherwise the C string now in \<^verbatim>\<open>buf\<close> and the rest of the
  stream.
\<close>

definition read_line :: "string \<Rightarrow> (string \<times> string) option" where
  "read_line stdin =
     (case fgets BUF_SIZE stdin of
        None \<Rightarrow> None
      | Some (buf, stdin') \<Rightarrow> Some (c_str (buf[strcspn buf [NL] := NUL]), stdin'))"

text \<open>
  Lines 33-46, the \<^verbatim>\<open>insert\<close> branch: three more tokens from the saved position; all
  three present gives the row and its report, otherwise the syntax error.
\<close>

definition do_insert :: "string \<Rightarrow> undefined_behaviour + string" where
  "do_insert saved =
     (case strtok saved [SP] of (id_string, saved1) \<Rightarrow>
      case strtok saved1 [SP] of (username_tok, saved2) \<Rightarrow>
      case strtok saved2 [SP] of (email_tok, saved3) \<Rightarrow>
        if id_string \<noteq> None \<and> username_tok \<noteq> None \<and> email_tok \<noteq> None then
          (case atoi (the id_string) of
             None \<Rightarrow> Inl AtoiOutOfRange
           | Some n \<Rightarrow>
              (case strcpy USERNAME_SIZE (the username_tok) of
                 Inl ub \<Rightarrow> Inl ub
               | Inr u \<Rightarrow>
                  (case strcpy EMAIL_SIZE (the email_tok) of
                     Inl ub \<Rightarrow> Inl ub
                   | Inr e \<Rightarrow> Inr (inserted \<lparr>row_id = n, username = u, email = e\<rparr>))))
        else Inr syntax_error)"

text \<open>
  Lines 25-51, the rest of the loop body on the line in \<^verbatim>\<open>buf\<close>: the output of this
  iteration and how the loop goes on. \<open>Continue\<close> is both the \<^verbatim>\<open>continue\<close> of line 27
  (which skips the prompt of line 51) and the end of the body after line 51.
\<close>

datatype control = Continue | Break | Fault undefined_behaviour

definition exec_line :: "string \<Rightarrow> string \<times> control" where
  "exec_line line =
     (case strtok line [SP] of
        (None, _) \<Rightarrow> ([], Continue)
      | (Some command, saved) \<Rightarrow>
          if command = ''q'' \<or> command = ''quit'' then ([], Break)
          else
            (case (if command = ''insert'' then do_insert saved
                   else Inr (unrecognized command)) of
               Inl ub \<Rightarrow> ([], Fault ub)
             | Inr out \<Rightarrow> (out @ prompt, Continue)))"

text \<open>
  One iteration of \<^verbatim>\<open>while (true)\<close> (lines 19-52): either the loop goes round again
  with some output and the rest of the stream, or it is left.
\<close>

datatype exit_status = Returned int | Undefined undefined_behaviour

datatype iteration = Again string string | Done string exit_status

definition loop_body :: "string \<Rightarrow> iteration" where
  "loop_body stdin =
     (case read_line stdin of
        None \<Rightarrow> Done [] (Returned 0)
      | Some (line, stdin') \<Rightarrow>
          (case exec_line line of
             (out, Continue) \<Rightarrow> Again out stdin'
           | (out, Break) \<Rightarrow> Done out (Returned 0)
           | (out, Fault ub) \<Rightarrow> Done out (Undefined ub)))"

text \<open>Every iteration that goes round again has consumed at least one byte.\<close>

lemma fgets_read_append: "fgets_read k s = (bytes, r) \<Longrightarrow> s = bytes @ r"
  by (induction k s arbitrary: bytes r rule: fgets_read.induct)
     (auto split: if_splits prod.splits)

lemma fgets_Some_shorter: "fgets n s = Some (buf, r) \<Longrightarrow> length r < length s"
  by (auto simp: fgets_def split: prod.splits list.splits dest!: fgets_read_append)

lemma read_line_shorter: "read_line s = Some (l, r) \<Longrightarrow> length r < length s"
  by (auto simp: read_line_def split: option.splits dest: fgets_Some_shorter)

lemma loop_body_shorter: "loop_body s = Again out r \<Longrightarrow> length r < length s"
  by (auto simp: loop_body_def split: option.splits prod.splits control.splits
      dest: read_line_shorter)

text \<open>
  The loop (lines 19-52) and \<^verbatim>\<open>main\<close> (lines 14-55): everything printed, and how the
  program ends. The first prompt is line 17.
\<close>

function main_loop :: "string \<Rightarrow> string \<times> exit_status" where
  "main_loop stdin =
     (case loop_body stdin of
        Done out status \<Rightarrow> (out, status)
      | Again out stdin' \<Rightarrow>
          (case main_loop stdin' of (out', status) \<Rightarrow> (out @ out', status)))"
  by pat_completeness auto
termination
  by (relation "measure length") (auto dest: loop_body_shorter)

declare main_loop.simps [simp del]

definition main :: "string \<Rightarrow> string \<times> exit_status" where
  "main stdin = (case main_loop stdin of (out, status) \<Rightarrow> (prompt @ out, status))"

subsection \<open>Notions of the specification: tokens, lines, numeric text\<close>

text \<open>
  The specification's tokenizer: the tokens of a line are its maximal runs of bytes that
  are not separators, in order. \<open>sep\<close> says which bytes separate.
\<close>

function spec_tokens :: "(char \<Rightarrow> bool) \<Rightarrow> string \<Rightarrow> string list" where
  "spec_tokens sep s =
     (case dropWhile sep s of
        [] \<Rightarrow> []
      | c # cs \<Rightarrow>
          (c # takeWhile (\<lambda>x. \<not> sep x) cs)
            # spec_tokens sep (dropWhile (\<lambda>x. \<not> sep x) cs))"
  by pat_completeness auto
termination
proof (relation "measure (\<lambda>(sep, s). length s)")
  fix sep :: "char \<Rightarrow> bool" and s :: string and c cs
  assume "dropWhile sep s = c # cs"
  then have "length (c # cs) \<le> length s"
    by (metis length_dropWhile_le)
  moreover have "length (dropWhile (\<lambda>x. \<not> sep x) cs) \<le> length cs"
    by (rule length_dropWhile_le)
  ultimately show "((sep, dropWhile (\<lambda>x. \<not> sep x) cs), (sep, s)) \<in> measure (\<lambda>(sep, s). length s)"
    by simp
qed simp

declare spec_tokens.simps [simp del]

text \<open>The program's separator (the delimiter string of every \<^verbatim>\<open>strtok\<close> call) is the space.\<close>

definition is_space :: "char \<Rightarrow> bool" where
  "is_space c = (c = SP)"

definition tokens :: "string \<Rightarrow> string list" where
  "tokens line = spec_tokens is_space line"

text \<open>
  A line of text: what \<^verbatim>\<open>fgets\<close> hands over whole, newline included, in one call, and
  what is a C string as it stands (no NUL byte inside).
\<close>

definition text_line :: "string \<Rightarrow> bool" where
  "text_line line = (NL \<notin> set line \<and> NUL \<notin> set line \<and> length line < BUF_SIZE - 1)"

text \<open>
  Numeric text, as the specification uses the words for the first argument of
  \<^verbatim>\<open>insert\<close>: an optional sign and then decimal digits, at least one, and nothing else.
\<close>

definition spec_numeric_text :: "string \<Rightarrow> bool" where
  "spec_numeric_text s =
     (case s of
        [] \<Rightarrow> False
      | c # cs \<Rightarrow>
          if c = CHR ''-'' \<or> c = CHR ''+'' then cs \<noteq> [] \<and> list_all isdigit cs
          else list_all isdigit (c # cs))"

text \<open>
  The decimal digits \<^verbatim>\<open>atoi\<close> reads: those that follow the leading white space and one
  optional sign, up to the first other byte.
\<close>

definition leading_digits :: "string \<Rightarrow> string" where
  "leading_digits s =
     (case dropWhile isspace s of
        [] \<Rightarrow> []
      | c # cs \<Rightarrow>
          if c = CHR ''-'' \<or> c = CHR ''+'' then takeWhile isdigit cs
          else takeWhile isdigit (c # cs))"





subsection \<open>Facts about reading a line\<close>

lemma cut_at_newline:
  "c_str ((bytes @ [NUL])[strcspn (bytes @ [NUL]) [NL] := NUL])
     = takeWhile (\<lambda>c. c \<noteq> NL \<and> c \<noteq> NUL) bytes"
  by (induction bytes) (auto simp: c_str_def strcspn_def)

lemma read_line_fgets_read:
  "fgets_read 255 s = (bytes, r) \<Longrightarrow> bytes \<noteq> [] \<Longrightarrow>
   read_line s = Some (takeWhile (\<lambda>c. c \<noteq> NL \<and> c \<noteq> NUL) bytes, r)"
proof -
  assume a: "fgets_read 255 s = (bytes, r)" and b: "bytes \<noteq> []"
  have "fgets BUF_SIZE s = Some (bytes @ [NUL], r)"
    using a b by (cases bytes) (simp_all add: fgets_def BUF_SIZE_def)
  then show ?thesis
    by (simp add: read_line_def cut_at_newline)
qed

lemma fgets_read_Nil: "fgets_read k [] = ([], [])"
  by (cases k) simp_all

lemma fgets_read_line:
  "NL \<notin> set line \<Longrightarrow> length line < k \<Longrightarrow> fgets_read k (line @ NL # rest) = (line @ [NL], rest)"
  by (induction k "line @ NL # rest" arbitrary: line rule: fgets_read.induct)
     (auto simp: Cons_eq_append_conv)

lemma fgets_read_long:
  "NL \<notin> set line \<Longrightarrow> k \<le> length line \<Longrightarrow> fgets_read k (line @ rest) = (take k line, drop k line @ rest)"
proof (induction k arbitrary: line)
  case 0 then show ?case by simp
next
  case (Suc k)
  then obtain c cs where "line = c # cs" by (cases line) auto
  with Suc show ?case by auto
qed

lemma read_line_short:
  assumes "NL \<notin> set line" "NUL \<notin> set line" "length line < 255"
  shows "read_line (line @ NL # rest) = Some (line, rest)"
proof -
  have "fgets_read 255 (line @ NL # rest) = (line @ [NL], rest)"
    using assms by (simp add: fgets_read_line)
  then have "read_line (line @ NL # rest) = Some (takeWhile (\<lambda>c. c \<noteq> NL \<and> c \<noteq> NUL) (line @ [NL]), rest)"
    by (rule read_line_fgets_read) simp
  moreover have "takeWhile (\<lambda>c. c \<noteq> NL \<and> c \<noteq> NUL) (line @ [NL]) = line"
    using assms by (induction line) auto
  ultimately show ?thesis by simp
qed

lemma read_line_Nil: "read_line [] = None"
  by (simp add: read_line_def fgets_def fgets_read_Nil)





lemma fgets_read_shape:
  "fgets_read k s = (bytes, r) \<Longrightarrow> length bytes \<le> k \<and> NL \<notin> set (butlast bytes)"
  by (induction k s arbitrary: bytes rule: fgets_read.induct)
     (auto split: if_splits prod.splits)



lemma fgets_read_eof:
  "NL \<notin> set line \<Longrightarrow> length line \<le> k \<Longrightarrow> fgets_read k line = (line, [])"
  by (induction k line rule: fgets_read.induct) auto

subsection \<open>Facts about the tokenizer\<close>

lemma spec_tokens_sep_Cons: "sep c \<Longrightarrow> spec_tokens sep (c # s) = spec_tokens sep s"
  by (subst (1 2) spec_tokens.simps) simp

lemma spec_tokens_drop1:
  "spec_tokens sep (drop 1 (dropWhile (\<lambda>x. \<not> sep x) cs)) = spec_tokens sep (dropWhile (\<lambda>x. \<not> sep x) cs)"
proof (cases "dropWhile (\<lambda>x. \<not> sep x) cs")
  case Nil
  show ?thesis unfolding Nil by simp
next
  case (Cons d ds)
  then have "sep d" using hd_dropWhile [of "\<lambda>x. \<not> sep x" cs] by auto
  then show ?thesis unfolding Cons by (simp add: spec_tokens_sep_Cons)
qed

lemma set_SP: "(c \<in> set [SP]) = is_space c"
  by (auto simp: is_space_def)

lemma strtok_space:
  "strtok s [SP] =
     (case dropWhile is_space s of
        [] \<Rightarrow> (None, [])
      | c # cs \<Rightarrow> (Some (c # takeWhile (\<lambda>x. \<not> is_space x) cs),
                   drop 1 (dropWhile (\<lambda>x. \<not> is_space x) cs)))"
proof (cases "dropWhile is_space s")
  case Nil
  show ?thesis unfolding strtok_def set_SP Nil by simp
next
  case (Cons c cs)
  then have "\<not> is_space c" using hd_dropWhile [of is_space s] by auto
  then show ?thesis unfolding strtok_def set_SP Cons by simp
qed

lemma tokens_unfold:
  "tokens s =
     (case dropWhile is_space s of
        [] \<Rightarrow> []
      | c # cs \<Rightarrow> (c # takeWhile (\<lambda>x. \<not> is_space x) cs)
                   # tokens (drop 1 (dropWhile (\<lambda>x. \<not> is_space x) cs)))"
  unfolding tokens_def spec_tokens_drop1
  by (rule spec_tokens.simps)

lemma strtok_tokens:
  "strtok s [SP] = (tok, saved) \<Longrightarrow>
   tokens s = (case tok of None \<Rightarrow> [] | Some t \<Rightarrow> t # tokens saved)"
  by (cases "dropWhile is_space s") (auto simp: strtok_space tokens_unfold [of s] simp del: dropWhile_eq_Nil_conv)

lemma strtok_None: "tokens s = [] \<Longrightarrow> strtok s [SP] = (None, [])"
  by (cases "dropWhile is_space s") (auto simp: strtok_space tokens_unfold [of s] simp del: dropWhile_eq_Nil_conv)

lemma strtok_Some:
  "tokens s = t # ts \<Longrightarrow> \<exists>saved. strtok s [SP] = (Some t, saved) \<and> tokens saved = ts"
  by (cases "dropWhile is_space s") (auto simp: strtok_space tokens_unfold [of s] simp del: dropWhile_eq_Nil_conv)

subsection \<open>Facts about the integer conversion\<close>

lemma digits_value_takeWhile: "digits_value acc s = digits_value acc (takeWhile isdigit s)"
  by (induction s arbitrary: acc) simp_all

lemma digits_value_zeros:
  "list_all (\<lambda>c. c = CHR ''0'') ds \<Longrightarrow> digits_value 0 ds = 0"
  by (induction ds) (simp_all add: isdigit_def digit_val_def)

lemma strtol10_zero_digits:
  assumes "list_all (\<lambda>c. c = CHR ''0'') (leading_digits s)"
  shows "strtol10 s = 0"
proof (cases "dropWhile isspace s")
  case Nil
  then show ?thesis by (simp add: strtol10_def del: dropWhile_eq_Nil_conv)
next
  case (Cons c cs)
  show ?thesis
  proof (cases "c = CHR ''-'' \<or> c = CHR ''+''")
    case True
    with assms Cons have "digits_value 0 (takeWhile isdigit cs) = 0"
      by (auto simp: leading_digits_def digits_value_zeros)
    then have "digits_value 0 cs = 0"
      using digits_value_takeWhile [of 0 cs] by simp
    with True Cons show ?thesis
      by (auto simp: strtol10_def)
  next
    case False
    with assms Cons have "digits_value 0 (takeWhile isdigit (c # cs)) = 0"
      by (auto simp: leading_digits_def digits_value_zeros simp del: takeWhile.simps)
    then have "digits_value 0 (c # cs) = 0"
      using digits_value_takeWhile [of 0 "c # cs"] by simp
    with False Cons show ?thesis
      by (simp add: strtol10_def)
  qed
qed

lemma atoi_zero_digits:
  "list_all (\<lambda>c. c = CHR ''0'') (leading_digits s) \<Longrightarrow> atoi s = Some 0"
  by (simp add: atoi_def strtol10_zero_digits INT_MIN_def INT_MAX_def)

lemma show_nat_0: "show_nat 0 = ''0''"
  by code_simp

lemma show_int_0: "show_int 0 = ''0''"
  by (simp add: show_int_def show_nat_0)

subsection \<open>Facts about the dispatcher\<close>

lemma exec_line_no_token: "tokens line = [] \<Longrightarrow> exec_line line = ([], Continue)"
  by (simp add: exec_line_def strtok_None)

lemma exec_line_quit:
  "tokens line = t # ts \<Longrightarrow> t = ''q'' \<or> t = ''quit'' \<Longrightarrow> exec_line line = ([], Break)"
  by (auto simp: exec_line_def dest!: strtok_Some)

lemma exec_line_unrecognized:
  "tokens line = t # ts \<Longrightarrow> t \<noteq> ''q'' \<Longrightarrow> t \<noteq> ''quit'' \<Longrightarrow> t \<noteq> ''insert'' \<Longrightarrow>
   exec_line line = (unrecognized t @ prompt, Continue)"
  by (auto simp: exec_line_def dest!: strtok_Some)

lemma exec_line_insert:
  "tokens line = ''insert'' # args \<Longrightarrow> \<exists>saved. tokens saved = args \<and>
   exec_line line = (case do_insert saved of Inl ub \<Rightarrow> ([], Fault ub) | Inr out \<Rightarrow> (out @ prompt, Continue))"
  by (auto simp: exec_line_def dest!: strtok_Some)

lemma strtok_Nil: "strtok [] delim = (None, [])"
  by (simp add: strtok_def)

lemma do_insert_few:
  "tokens saved = args \<Longrightarrow> length args < 3 \<Longrightarrow> do_insert saved = Inr syntax_error"
proof -
  assume t: "tokens saved = args" and l: "length args < 3"
  consider "args = []" | a where "args = [a]" | a u where "args = [a, u]"
    using l by (auto simp: numeral_3_eq_3 less_Suc_eq length_Suc_conv)
  then show ?thesis
  proof cases
    case 1
    with t show ?thesis by (simp add: do_insert_def strtok_None strtok_Nil)
  next
    case 2
    with t obtain s1 where "strtok saved [SP] = (Some a, s1)" "tokens s1 = []"
      using strtok_Some by blast
    then show ?thesis by (simp add: do_insert_def strtok_None strtok_Nil)
  next
    case 3
    with t obtain s1 where s1: "strtok saved [SP] = (Some a, s1)" "tokens s1 = [u]"
      using strtok_Some by blast
    then obtain s2 where "strtok s1 [SP] = (Some u, s2)" "tokens s2 = []"
      using strtok_Some by blast
    with s1 show ?thesis by (simp add: do_insert_def strtok_None strtok_Nil)
  qed
qed

lemma do_insert_three:
  "tokens saved = a # u # e # extra \<Longrightarrow>
   do_insert saved =
     (case atoi a of
        None \<Rightarrow> Inl AtoiOutOfRange
      | Some n \<Rightarrow>
          if USERNAME_SIZE < length u + 1 then Inl (ArrayOverrun USERNAME_SIZE (length u + 1))
          else if EMAIL_SIZE < length e + 1 then Inl (ArrayOverrun EMAIL_SIZE (length e + 1))
          else Inr (inserted \<lparr>row_id = n, username = u, email = e\<rparr>))"
  by (auto simp: do_insert_def strcpy_def dest!: strtok_Some split: option.splits)


lemma exec_line_insert_args:
  assumes "tokens line = ''insert'' # args"
  shows "exec_line line =
     (case args of
        a # u # e # _ \<Rightarrow>
          (case atoi a of
             None \<Rightarrow> ([], Fault AtoiOutOfRange)
           | Some n \<Rightarrow>
               if USERNAME_SIZE < length u + 1
               then ([], Fault (ArrayOverrun USERNAME_SIZE (length u + 1)))
               else if EMAIL_SIZE < length e + 1
               then ([], Fault (ArrayOverrun EMAIL_SIZE (length e + 1)))
               else (inserted \<lparr>row_id = n, username = u, email = e\<rparr> @ prompt, Continue))
      | _ \<Rightarrow> (syntax_error @ prompt, Continue))"
proof -
  obtain saved where s: "tokens saved = args"
    and e: "exec_line line =
      (case do_insert saved of Inl ub \<Rightarrow> ([], Fault ub) | Inr out \<Rightarrow> (out @ prompt, Continue))"
    using exec_line_insert [OF assms] by blast
  show ?thesis
  proof (cases "length args < 3")
    case True
    then have "do_insert saved = Inr syntax_error"
      using s by (simp add: do_insert_few)
    moreover have "(case args of a # u # e # x \<Rightarrow> P a u e | _ \<Rightarrow> Q) = Q" for P :: "string \<Rightarrow> string \<Rightarrow> string \<Rightarrow> string \<times> control" and Q
      using True by (auto split: list.splits)
    ultimately show ?thesis
      using e by simp
  next
    case False
    then obtain a u e extra where args: "args = a # u # e # extra"
      by (cases args rule: list.exhaust; simp; rename_tac a as; case_tac as; simp; rename_tac u us; case_tac us; simp)
    show ?thesis
      using e s unfolding args
      by (simp add: do_insert_three split: option.splits)
  qed
qed

lemma exec_line_tokens:
  "exec_line line =
     (case tokens line of
        [] \<Rightarrow> ([], Continue)
      | command # args \<Rightarrow>
          if command = ''q'' \<or> command = ''quit'' then ([], Break)
          else if command = ''insert'' then
            (case args of
               a # u # e # _ \<Rightarrow>
                 (case atoi a of
                    None \<Rightarrow> ([], Fault AtoiOutOfRange)
                  | Some n \<Rightarrow>
                      if USERNAME_SIZE < length u + 1
                      then ([], Fault (ArrayOverrun USERNAME_SIZE (length u + 1)))
                      else if EMAIL_SIZE < length e + 1
                      then ([], Fault (ArrayOverrun EMAIL_SIZE (length e + 1)))
                      else (inserted \<lparr>row_id = n, username = u, email = e\<rparr> @ prompt, Continue))
             | _ \<Rightarrow> (syntax_error @ prompt, Continue))
          else (unrecognized command @ prompt, Continue))"
proof (cases "tokens line")
  case Nil
  then show ?thesis by (simp add: exec_line_no_token)
next
  case (Cons command args)
  consider "command = ''q'' \<or> command = ''quit''" | "command = ''insert''"
    | "command \<noteq> ''q''" "command \<noteq> ''quit''" "command \<noteq> ''insert''"
    by blast
  then show ?thesis
  proof cases
    case 1
    then show ?thesis using Cons exec_line_quit [OF Cons] by simp
  next
    case 2
    then show ?thesis using Cons exec_line_insert_args [of line args] by simp
  next
    case 3
    then show ?thesis using Cons exec_line_unrecognized [OF Cons] by simp
  qed
qed




subsection \<open>Facts about the loop\<close>

lemma read_line_text_line:
  "text_line line \<Longrightarrow> read_line (line @ NL # rest) = Some (line, rest)"
  by (simp add: text_line_def BUF_SIZE_def read_line_short)

lemma loop_body_text_line:
  "text_line line \<Longrightarrow>
   loop_body (line @ NL # rest) =
     (case exec_line line of
        (out, Continue) \<Rightarrow> Again out rest
      | (out, Break) \<Rightarrow> Done out (Returned 0)
      | (out, Fault ub) \<Rightarrow> Done out (Undefined ub))"
  by (simp add: loop_body_def read_line_text_line)

lemma main_loop_Done: "loop_body s = Done out status \<Longrightarrow> main_loop s = (out, status)"
  by (subst main_loop.simps) simp

lemma main_loop_Again:
  "loop_body s = Again out r \<Longrightarrow> main_loop s = (out @ fst (main_loop r), snd (main_loop r))"
  by (subst main_loop.simps) (simp split: prod.splits)

lemma loop_body_insert:
  assumes "text_line line" and "tokens line = ''insert'' # a # u # e # extra"
  shows "loop_body (line @ NL # rest) =
     (case atoi a of
        None \<Rightarrow> Done [] (Undefined AtoiOutOfRange)
      | Some n \<Rightarrow>
          if USERNAME_SIZE < length u + 1
          then Done [] (Undefined (ArrayOverrun USERNAME_SIZE (length u + 1)))
          else if EMAIL_SIZE < length e + 1
          then Done [] (Undefined (ArrayOverrun EMAIL_SIZE (length e + 1)))
          else Again (inserted \<lparr>row_id = n, username = u, email = e\<rparr> @ prompt) rest)"
proof -
  obtain saved where "tokens saved = a # u # e # extra"
    and "exec_line line =
      (case do_insert saved of Inl ub \<Rightarrow> ([], Fault ub) | Inr out \<Rightarrow> (out @ prompt, Continue))"
    using exec_line_insert [OF assms(2)] by blast
  then show ?thesis
    by (simp add: loop_body_text_line [OF assms(1)] do_insert_three split: option.splits)
qed



lemma main_loop_Nil: "main_loop [] = ([], Returned 0)"
  by (rule main_loop_Done) (simp add: loop_body_def read_line_Nil)




lemma loop_body_read:
  "read_line stdin = Some (line, rest) \<Longrightarrow>
   loop_body stdin =
     (case exec_line line of
        (out, Continue) \<Rightarrow> Again out rest
      | (out, Break) \<Rightarrow> Done out (Returned 0)
      | (out, Fault ub) \<Rightarrow> Done out (Undefined ub))"
  by (simp add: loop_body_def)



subsection \<open>Facts about blank lines\<close>

lemma blank_bytes: "list_all is_space xs \<Longrightarrow> c \<in> set xs \<Longrightarrow> c = SP"
  by (simp add: list_all_iff is_space_def)

lemma blank_no_newline: "list_all is_space xs \<Longrightarrow> NL \<notin> set xs"
proof
  assume "list_all is_space xs" and "NL \<in> set xs"
  then have "NL = SP" by (rule blank_bytes)
  then show False by simp
qed

lemma blank_no_NUL: "list_all is_space xs \<Longrightarrow> NUL \<notin> set xs"
proof
  assume "list_all is_space xs" and "NUL \<in> set xs"
  then have "NUL = SP" by (rule blank_bytes)
  then show False by simp
qed

lemma blank_c_str: "list_all is_space xs \<Longrightarrow> takeWhile (\<lambda>c. c \<noteq> NL \<and> c \<noteq> NUL) xs = xs"
  by (induction xs) (auto simp: is_space_def)

lemma blank_tokens: "list_all is_space xs \<Longrightarrow> tokens xs = []"
proof -
  assume "list_all is_space xs"
  then have "dropWhile is_space xs = []"
    by (simp add: list_all_iff)
  then show ?thesis
    by (simp add: tokens_unfold [of xs] del: dropWhile_eq_Nil_conv)
qed

lemma main_loop_blank:
  "list_all is_space line \<Longrightarrow> tail = [] \<or> hd tail = NL \<Longrightarrow>
   main_loop (line @ tail) = main_loop (drop 1 tail)"
proof (induction line rule: measure_induct_rule [of length])
  case (less line)
  have nl: "NL \<notin> set line"
    using less.prems(1) by (rule blank_no_newline)
  show ?case
  proof (cases "255 \<le> length line")
    case True
    have "fgets_read 255 (line @ tail) = (take 255 line, drop 255 line @ tail)"
      using nl True by (rule fgets_read_long)
    moreover have ne: "take 255 line \<noteq> []"
      using True by auto
    ultimately have "read_line (line @ tail)
        = Some (takeWhile (\<lambda>c. c \<noteq> NL \<and> c \<noteq> NUL) (take 255 line), drop 255 line @ tail)"
      by (rule read_line_fgets_read)
    moreover have b: "list_all is_space (take 255 line)" "list_all is_space (drop 255 line)"
      using less.prems(1) by (auto simp: list_all_iff dest: in_set_takeD in_set_dropD)
    ultimately have "read_line (line @ tail) = Some (take 255 line, drop 255 line @ tail)"
      by (simp add: blank_c_str)
    then have "loop_body (line @ tail) = Again [] (drop 255 line @ tail)"
      using b(1) by (simp add: loop_body_read exec_line_tokens blank_tokens)
    then have "main_loop (line @ tail) = main_loop (drop 255 line @ tail)"
      using main_loop_Again [of "line @ tail" "[]" "drop 255 line @ tail"] by simp
    also have "\<dots> = main_loop (drop 1 tail)"
      using less.IH [of "drop 255 line"] b(2) less.prems(2) True by simp
    finally show ?thesis .
  next
    case False
    show ?thesis
    proof (cases tail)
      case Nil
      show ?thesis
      proof (cases "line = []")
        case True
        with Nil show ?thesis by simp
      next
        case ne: False
        have "fgets_read 255 line = (line, [])"
          using nl False by (simp add: fgets_read_eof)
        then have "read_line line = Some (takeWhile (\<lambda>c. c \<noteq> NL \<and> c \<noteq> NUL) line, [])"
          using ne by (rule read_line_fgets_read)
        then have "read_line line = Some (line, [])"
          using less.prems(1) by (simp add: blank_c_str)
        then have "loop_body line = Again [] []"
          using less.prems(1) by (simp add: loop_body_read exec_line_tokens blank_tokens)
        then show ?thesis
          using main_loop_Again [of line "[]" "[]"] Nil by simp
      qed
    next
      case (Cons c rest)
      then have tail: "tail = NL # rest"
        using less.prems(2) by simp
      have "NUL \<notin> set line"
        using less.prems(1) by (rule blank_no_NUL)
      then have "text_line line"
        using nl False by (simp add: text_line_def BUF_SIZE_def)
      then have "read_line (line @ NL # rest) = Some (line, rest)"
        by (rule read_line_text_line)
      then have "loop_body (line @ NL # rest) = Again [] rest"
        using less.prems(1) by (simp add: loop_body_read exec_line_tokens blank_tokens)
      then show ?thesis
        using main_loop_Again [of "line @ NL # rest" "[]" rest] tail by simp
    qed
  qed
qed

section \<open>The claims\<close>

text \<open>
  A line, for the program, is what one read delivers: \<open>read_line stdin = Some (line, rest)\<close>
  says that the read at the head of \<open>stdin\<close> puts \<open>line\<close> in \<^verbatim>\<open>buf\<close> and leaves \<open>rest\<close> in
  the stream. \<open>line\<close> is what one \<^verbatim>\<open>fgets\<close> call stores (at most 255 bytes, through the
  first newline) cut at the first newline or NUL. A physical line of fewer than 255
  bytes with no NUL in it is delivered whole (\<open>read_line_text_line\<close>); a longer one is
  delivered in pieces, each handled as a line of its own (C10). The tokens of a line are
  its maximal runs of bytes other than the space.
\<close>

text \<open>
  C1. As stated, for every input line, the claim fails on a physical line of 255 bytes
  or more: \<^verbatim>\<open>insert 1 bob\<close> followed by an email token of 250 bytes has exactly three
  arguments that fit their fields, yet only the first 255 bytes are read as the line. The
  program echoes the first 242 bytes of the email token and then reports the other 8 as
  an unrecognized command.
\<close>

theorem insert_line_too_long:
  "tokens (''insert 1 bob '' @ replicate 250 (CHR ''e''))
     = [''insert'', ''1'', ''bob'', replicate 250 (CHR ''e'')]
   \<and> atoi ''1'' = Some 1
   \<and> length ''bob'' < USERNAME_SIZE
   \<and> length (replicate 250 (CHR ''e'')) < EMAIL_SIZE
   \<and> main ((''insert 1 bob '' @ replicate 250 (CHR ''e'')) @ [NL])
     = (''NanoDB> '' @ ''inserted ID 1, user bob, email '' @ replicate 242 (CHR ''e'') @ [NL]
          @ ''NanoDB> '' @ ''Unrecognized command '' @ [QUOTE] @ replicate 8 (CHR ''e'') @ [QUOTE]
          @ ''.'' @ [NL] @ ''NanoDB> '', Returned 0)"
  by code_simp

text \<open>
  C1, amended. For every line as the reader delivers it whose tokens are \<^verbatim>\<open>insert\<close> and
  exactly three arguments, each fitting its field (the first converts to an \<^verbatim>\<open>int\<close>, the
  second is shorter than the 32-byte \<^verbatim>\<open>username\<close>, the third shorter than the 255-byte
  \<^verbatim>\<open>email\<close>), the program prints exactly the line
  \<^verbatim>\<open>inserted ID <n>, user <username>, email <email>\<close>, with \<open>n\<close> the integer conversion of
  the first argument and the other two echoed as they are, followed by the next prompt;
  the loop goes on with the rest of the input.
\<close>

theorem insert_echoes:
  assumes "read_line stdin = Some (line, rest)"
    and "tokens line = [''insert'', a, u, e]"
    and "atoi a = Some n"
    and "length u < USERNAME_SIZE"
    and "length e < EMAIL_SIZE"
  shows "loop_body stdin =
     Again (''inserted ID '' @ show_int n @ '', user '' @ u @ '', email '' @ e @ [NL] @ prompt) rest"
  using assms by (simp add: loop_body_read exec_line_tokens inserted_def)

theorem insert_echoes_witness:
  "read_line (''insert 1 alice alice@example.com'' @ [NL] @ ''q'')
     = Some (''insert 1 alice alice@example.com'', ''q'')
   \<and> tokens ''insert 1 alice alice@example.com'' = [''insert'', ''1'', ''alice'', ''alice@example.com'']
   \<and> atoi ''1'' = Some 1
   \<and> length ''alice'' < USERNAME_SIZE \<and> length ''alice@example.com'' < EMAIL_SIZE
   \<and> loop_body (''insert 1 alice alice@example.com'' @ [NL] @ ''q'') =
        Again (''inserted ID 1, user alice, email alice@example.com'' @ [NL] @ ''NanoDB> '') ''q''"
proof -
  have h1: "read_line (''insert 1 alice alice@example.com'' @ [NL] @ ''q'')
     = Some (''insert 1 alice alice@example.com'', ''q'')"
    by code_simp
  have h2: "tokens ''insert 1 alice alice@example.com'' = [''insert'', ''1'', ''alice'', ''alice@example.com'']"
    by code_simp
  have h3: "atoi ''1'' = Some 1"
    by code_simp
  have h4: "length ''alice'' < USERNAME_SIZE"
    by (simp add: USERNAME_SIZE_def)
  have h5: "length ''alice@example.com'' < EMAIL_SIZE"
    by (simp add: EMAIL_SIZE_def)
  have s: "show_int 1 = ''1''"
    by code_simp
  have "loop_body (''insert 1 alice alice@example.com'' @ [NL] @ ''q'') =
        Again (''inserted ID 1, user alice, email alice@example.com'' @ [NL] @ ''NanoDB> '') ''q''"
    using insert_echoes [OF h1 h2 h3 h4 h5] by (simp add: s prompt_def)
  with h1 h2 h3 h4 h5 show ?thesis
    by (intro conjI)
qed

text \<open>
  C2. As stated, with every white-space byte a separator, the claim fails: a tab does
  not end a token, so \<^verbatim>\<open>insert<TAB>1\<close> is one token for the program and two for the
  specification, and the program reports it as an unrecognized command.
\<close>

theorem tab_does_not_separate:
  "spec_tokens isspace (''insert'' @ [CHR 0x09] @ ''1'') = [''insert'', ''1'']
   \<and> strtok (''insert'' @ [CHR 0x09] @ ''1'') [SP] = (Some (''insert'' @ [CHR 0x09] @ ''1''), [])
   \<and> exec_line (''insert'' @ [CHR 0x09] @ ''1'')
       = (''Unrecognized command '' @ [QUOTE] @ ''insert'' @ [CHR 0x09] @ ''1'' @ [QUOTE] @ ''.''
            @ [NL] @ ''NanoDB> '', Continue)"
  by code_simp

text \<open>
  C2, amended. The tokenizer splits on the space byte only. Each \<^verbatim>\<open>strtok\<close> call of
  \<^verbatim>\<open>main\<close> returns the next maximal run of bytes other than the space (NULL when there is
  none) and leaves the saved position where the remaining runs are the remaining tokens.
  And what \<^verbatim>\<open>main\<close> does with the line in \<^verbatim>\<open>buf\<close> is a function of these runs: the first
  is the command name, the next three are the positional arguments of \<^verbatim>\<open>insert\<close>, and
  any further ones are not looked at.
\<close>

theorem tokenizer_splits_on_space:
  "(case strtok s [SP] of
      (None, saved) \<Rightarrow> spec_tokens (\<lambda>c. c = SP) s = []
    | (Some t, saved) \<Rightarrow> spec_tokens (\<lambda>c. c = SP) s = t # spec_tokens (\<lambda>c. c = SP) saved)
   \<and> exec_line line =
     (case spec_tokens (\<lambda>c. c = SP) line of
        [] \<Rightarrow> ([], Continue)
      | command # args \<Rightarrow>
          if command = ''q'' \<or> command = ''quit'' then ([], Break)
          else if command = ''insert'' then
            (case args of
               id_string # username_tok # email_tok # _ \<Rightarrow>
                 (case atoi id_string of
                    None \<Rightarrow> ([], Fault AtoiOutOfRange)
                  | Some n \<Rightarrow>
                      if USERNAME_SIZE < length username_tok + 1
                      then ([], Fault (ArrayOverrun USERNAME_SIZE (length username_tok + 1)))
                      else if EMAIL_SIZE < length email_tok + 1
                      then ([], Fault (ArrayOverrun EMAIL_SIZE (length email_tok + 1)))
                      else (inserted \<lparr>row_id = n, username = username_tok, email = email_tok\<rparr>
                              @ prompt, Continue))
             | _ \<Rightarrow> (syntax_error @ prompt, Continue))
          else (unrecognized command @ prompt, Continue))"
proof -
  have "is_space = (\<lambda>c. c = SP)"
    by (auto simp: is_space_def)
  then have t: "tokens = spec_tokens (\<lambda>c. c = SP)"
    by (auto simp: tokens_def)
  have "case strtok s [SP] of
      (None, saved) \<Rightarrow> tokens s = []
    | (Some t, saved) \<Rightarrow> tokens s = t # tokens saved"
    using strtok_tokens [of s] by (auto split: prod.splits option.splits)
  then show ?thesis
    using exec_line_tokens [of line] unfolding t by (intro conjI)
qed

theorem tokenizer_splits_on_space_witness:
  "spec_tokens (\<lambda>c. c = SP) (''  insert   7 bob'' @ [CHR 0x09] @ ''x b@x '')
     = [''insert'', ''7'', ''bob'' @ [CHR 0x09] @ ''x'', ''b@x'']
   \<and> exec_line (''  insert   7 bob'' @ [CHR 0x09] @ ''x b@x '')
     = (''inserted ID 7, user bob'' @ [CHR 0x09] @ ''x, email b@x'' @ [NL] @ ''NanoDB> '', Continue)"
proof -
  have h: "spec_tokens (\<lambda>c. c = SP) (''  insert   7 bob'' @ [CHR 0x09] @ ''x b@x '')
     = [''insert'', ''7'', ''bob'' @ [CHR 0x09] @ ''x'', ''b@x'']"
    by code_simp
  have a: "atoi ''7'' = Some 7"
    by code_simp
  have s: "show_int 7 = ''7''"
    by code_simp
  have "exec_line (''  insert   7 bob'' @ [CHR 0x09] @ ''x b@x '')
     = (''inserted ID 7, user bob'' @ [CHR 0x09] @ ''x, email b@x'' @ [NL] @ ''NanoDB> '', Continue)"
    using tokenizer_splits_on_space [of "[]" "''  insert   7 bob'' @ [CHR 0x09] @ ''x b@x ''", THEN conjunct2]
    unfolding h by (simp add: a s inserted_def prompt_def USERNAME_SIZE_def EMAIL_SIZE_def)
  with h show ?thesis
    by (intro conjI)
qed

text \<open>
  C3. As stated, for every white-space-only line, the claim fails: a line holding one
  tab is white space only, yet the tab is a token, and the program answers with the
  unrecognized-command message.
\<close>

theorem tab_line_is_a_command:
  "list_all isspace [CHR 0x09]
   \<and> loop_body ([CHR 0x09] @ [NL])
       = Again (''Unrecognized command '' @ [QUOTE] @ [CHR 0x09] @ [QUOTE] @ ''.'' @ [NL]
                  @ ''NanoDB> '') []"
  by code_simp

text \<open>
  C3, amended. A line that is empty or holds only space bytes makes the program print no
  error and no other text, at most the prompt, and the loop goes on with the rest of the
  input. This holds for every read that delivers such a line, and for a physical line of
  spaces of any length, ended by a newline or by the end of the input: running the
  program from the start of that line gives what running it from after the line gives,
  with nothing but prompts, if anything, printed before.
\<close>

theorem blank_line_no_diagnostic:
  assumes "list_all is_space line"
  shows "(read_line stdin = Some (line, rest) \<longrightarrow>
           (\<exists>out. loop_body stdin = Again out rest \<and> (out = [] \<or> out = prompt)))
     \<and> (tail = [] \<or> hd tail = NL \<longrightarrow>
           (\<exists>k. main_loop (line @ tail) =
                  (concat (replicate k prompt) @ fst (main_loop (drop 1 tail)),
                   snd (main_loop (drop 1 tail)))))"
proof (intro conjI impI)
  assume "read_line stdin = Some (line, rest)"
  then show "\<exists>out. loop_body stdin = Again out rest \<and> (out = [] \<or> out = prompt)"
    using assms by (simp add: loop_body_read exec_line_tokens blank_tokens)
next
  assume "tail = [] \<or> hd tail = NL"
  then have "main_loop (line @ tail) =
      (concat (replicate 0 prompt) @ fst (main_loop (drop 1 tail)), snd (main_loop (drop 1 tail)))"
    using main_loop_blank [OF assms, of tail] by simp
  then show "\<exists>k. main_loop (line @ tail) =
      (concat (replicate k prompt) @ fst (main_loop (drop 1 tail)), snd (main_loop (drop 1 tail)))"
    by blast
qed

theorem blank_line_no_diagnostic_witness:
  "list_all is_space [] \<and> list_all is_space [SP, SP] \<and> list_all is_space (replicate 300 SP)
   \<and> read_line ([] @ NL # ''q'') = Some ([], ''q'')
   \<and> (\<exists>out. loop_body ([] @ NL # ''q'') = Again out ''q'' \<and> (out = [] \<or> out = prompt))
   \<and> read_line ([SP, SP] @ NL # []) = Some ([SP, SP], [])
   \<and> (\<exists>out. loop_body ([SP, SP] @ NL # []) = Again out [] \<and> (out = [] \<or> out = prompt))
   \<and> (\<exists>k. main_loop (replicate 300 SP @ NL # ''foo'') =
          (concat (replicate k prompt) @ fst (main_loop ''foo''), snd (main_loop ''foo'')))
   \<and> (\<exists>k. main_loop (replicate 300 SP @ []) = (concat (replicate k prompt), Returned 0))"
proof -
  define L where "L = replicate 300 SP"
  have h1: "list_all is_space []" and h2: "list_all is_space [SP, SP]"
    by (simp_all add: is_space_def)
  have h3: "list_all is_space L"
    unfolding L_def list_all_iff by (auto simp only: in_set_replicate is_space_def)
  have r1: "read_line ([] @ NL # ''q'') = Some ([], ''q'')"
    by code_simp
  have r2: "read_line ([SP, SP] @ NL # []) = Some ([SP, SP], [])"
    by code_simp
  have a: "\<exists>out. loop_body ([] @ NL # ''q'') = Again out ''q'' \<and> (out = [] \<or> out = prompt)"
    using blank_line_no_diagnostic [OF h1, THEN conjunct1] r1 by blast
  have b: "\<exists>out. loop_body ([SP, SP] @ NL # []) = Again out [] \<and> (out = [] \<or> out = prompt)"
    using blank_line_no_diagnostic [OF h2, THEN conjunct1] r2 by blast
  have c: "\<exists>k. main_loop (L @ NL # ''foo'') =
          (concat (replicate k prompt) @ fst (main_loop ''foo''), snd (main_loop ''foo''))"
    using blank_line_no_diagnostic [OF h3, of _ _ "NL # ''foo''", THEN conjunct2] by simp
  have "\<exists>k. main_loop (L @ []) =
          (concat (replicate k prompt) @ fst (main_loop (drop 1 [])), snd (main_loop (drop 1 [])))"
    using blank_line_no_diagnostic [OF h3, of _ _ "[]", THEN conjunct2] by blast
  then have d: "\<exists>k. main_loop (L @ []) = (concat (replicate k prompt), Returned 0)"
    by (simp add: main_loop_Nil)
  from h1 h2 h3 r1 r2 a b c d show ?thesis
    unfolding L_def by (intro conjI)
qed

text \<open>
  C4. As stated, for every input line, the claim fails on a physical line of 255 bytes
  or more: 252 spaces and then \<^verbatim>\<open>insert\<close> is a line whose first token is \<^verbatim>\<open>insert\<close>,
  with no argument, yet the read cuts it after \<^verbatim>\<open>ins\<close>. The program reports \<^verbatim>\<open>ins\<close> and
  then \<^verbatim>\<open>ert\<close> as unrecognized commands and never prints the syntax error.
\<close>

theorem insert_cut_by_buffer:
  "tokens (replicate 252 SP @ ''insert'') = [''insert'']
   \<and> main ((replicate 252 SP @ ''insert'') @ [NL])
     = (''NanoDB> '' @ ''Unrecognized command '' @ [QUOTE] @ ''ins'' @ [QUOTE] @ ''.'' @ [NL]
          @ ''NanoDB> '' @ ''Unrecognized command '' @ [QUOTE] @ ''ert'' @ [QUOTE] @ ''.'' @ [NL]
          @ ''NanoDB> '', Returned 0)"
  by code_simp

text \<open>
  C4, amended. For every line as the reader delivers it whose first token is
  \<^verbatim>\<open>insert\<close>, followed by fewer than three argument tokens (none, one or two), the
  program prints the fixed text \<^verbatim>\<open>syntax error: insert <id> <username> <email>\<close> and a
  newline, then the next prompt, and the loop goes on with the rest of the input.
\<close>

theorem insert_missing_arguments:
  assumes "read_line stdin = Some (line, rest)"
    and "tokens line = ''insert'' # args"
    and "length args < 3"
  shows "loop_body stdin =
     Again (''syntax error: insert <id> <username> <email>'' @ [NL] @ prompt) rest"
proof -
  have "(case args of a # u # e # x \<Rightarrow> P a u e | _ \<Rightarrow> Q) = Q"
    for P :: "string \<Rightarrow> string \<Rightarrow> string \<Rightarrow> string \<times> control" and Q
    using assms(3) by (auto split: list.splits)
  then show ?thesis
    using assms(1,2) by (simp add: loop_body_read exec_line_tokens syntax_error_def)
qed

theorem insert_missing_arguments_witness:
  "read_line (''insert'' @ [NL] @ ''q'') = Some (''insert'', ''q'')
   \<and> tokens ''insert'' = ''insert'' # [] \<and> length ([] :: string list) < 3
   \<and> loop_body (''insert'' @ [NL] @ ''q'') =
        Again (''syntax error: insert <id> <username> <email>'' @ [NL] @ ''NanoDB> '') ''q''
   \<and> read_line (''insert 7 bob'' @ [NL]) = Some (''insert 7 bob'', [])
   \<and> tokens ''insert 7 bob'' = ''insert'' # [''7'', ''bob''] \<and> length [''7'', ''bob''] < 3
   \<and> loop_body (''insert 7 bob'' @ [NL]) =
        Again (''syntax error: insert <id> <username> <email>'' @ [NL] @ ''NanoDB> '') []"
proof -
  have h1: "read_line (''insert'' @ [NL] @ ''q'') = Some (''insert'', ''q'')"
    by code_simp
  have h2: "tokens ''insert'' = ''insert'' # []"
    by code_simp
  have h3: "length ([] :: string list) < 3"
    by simp
  have k1: "read_line (''insert 7 bob'' @ [NL]) = Some (''insert 7 bob'', [])"
    by code_simp
  have k2: "tokens ''insert 7 bob'' = ''insert'' # [''7'', ''bob'']"
    by code_simp
  have k3: "length [''7'', ''bob''] < 3"
    by simp
  have a: "loop_body (''insert'' @ [NL] @ ''q'') =
        Again (''syntax error: insert <id> <username> <email>'' @ [NL] @ ''NanoDB> '') ''q''"
    using insert_missing_arguments [OF h1 h2 h3] by (simp add: prompt_def)
  have b: "loop_body (''insert 7 bob'' @ [NL]) =
        Again (''syntax error: insert <id> <username> <email>'' @ [NL] @ ''NanoDB> '') []"
    using insert_missing_arguments [OF k1 k2 k3] by (simp add: prompt_def)
  show ?thesis
    by (intro conjI) (fact h1 h2 h3 k1 k2 k3 a b)+
qed

text \<open>
  C5. As stated, for every non-empty input line, the claim fails on a physical line of
  255 bytes or more: a line that is one token of 300 bytes, none of \<^verbatim>\<open>insert\<close>, \<^verbatim>\<open>q\<close>
  and \<^verbatim>\<open>quit\<close>, is read in two pieces, and the program names a 255-byte piece and then
  a 45-byte piece, never the token.
\<close>

theorem long_token_named_in_pieces:
  "tokens (replicate 300 (CHR ''x'')) = [replicate 300 (CHR ''x'')]
   \<and> replicate 300 (CHR ''x'') \<noteq> ''insert''
   \<and> replicate 300 (CHR ''x'') \<noteq> ''q''
   \<and> replicate 300 (CHR ''x'') \<noteq> ''quit''
   \<and> main (replicate 300 (CHR ''x'') @ [NL])
     = (''NanoDB> '' @ ''Unrecognized command '' @ [QUOTE] @ replicate 255 (CHR ''x'') @ [QUOTE]
          @ ''.'' @ [NL]
          @ ''NanoDB> '' @ ''Unrecognized command '' @ [QUOTE] @ replicate 45 (CHR ''x'') @ [QUOTE]
          @ ''.'' @ [NL] @ ''NanoDB> '', Returned 0)"
  by code_simp

text \<open>
  C5, amended. For every line as the reader delivers it that has a first token, where
  this token is none of \<^verbatim>\<open>insert\<close>, \<^verbatim>\<open>q\<close> and \<^verbatim>\<open>quit\<close>, the program prints
  \<^verbatim>\<open>Unrecognized command '<token>'.\<close> and a newline, naming that first token, then the
  next prompt; the loop goes on with the rest of the input.
\<close>

theorem unrecognized_command_named:
  assumes "read_line stdin = Some (line, rest)"
    and "tokens line = t # ts"
    and "t \<noteq> ''insert''" and "t \<noteq> ''q''" and "t \<noteq> ''quit''"
  shows "loop_body stdin =
     Again (''Unrecognized command '' @ [QUOTE] @ t @ [QUOTE] @ ''.'' @ [NL] @ prompt) rest"
  using assms by (simp add: loop_body_read exec_line_tokens unrecognized_def)

theorem unrecognized_command_named_witness:
  "read_line (''foobar'' @ [NL]) = Some (''foobar'', []) \<and> tokens ''foobar'' = ''foobar'' # []
   \<and> ''foobar'' \<noteq> ''insert'' \<and> ''foobar'' \<noteq> ''q'' \<and> ''foobar'' \<noteq> ''quit''
   \<and> loop_body (''foobar'' @ [NL]) =
        Again (''Unrecognized command '' @ [QUOTE] @ ''foobar'' @ [QUOTE] @ ''.'' @ [NL] @ ''NanoDB> '') []"
proof -
  have h1: "read_line (''foobar'' @ [NL]) = Some (''foobar'', [])"
    by code_simp
  have h2: "tokens ''foobar'' = ''foobar'' # []"
    by code_simp
  have h3: "''foobar'' \<noteq> ''insert''" and h4: "''foobar'' \<noteq> ''q''" and h5: "''foobar'' \<noteq> ''quit''"
    by simp_all
  have "loop_body (''foobar'' @ [NL]) =
        Again (''Unrecognized command '' @ [QUOTE] @ ''foobar'' @ [QUOTE] @ ''.'' @ [NL] @ ''NanoDB> '') []"
    using unrecognized_command_named [OF h1 h2 h3 h4 h5] by (simp add: prompt_def)
  with h1 h2 h3 h4 h5 show ?thesis
    by (intro conjI)
qed

text \<open>
  C6. As stated, for every first argument that is not valid numeric text, the claim
  fails: \<^verbatim>\<open>12abc\<close> is not numeric text, and the program echoes the ID 12, the value of
  the digits the argument starts with, not zero.
\<close>

theorem digits_then_letters_not_zero:
  "\<not> spec_numeric_text ''12abc''
   \<and> loop_body (''insert 12abc bob b@x'' @ [NL])
       = Again (''inserted ID 12, user bob, email b@x'' @ [NL] @ ''NanoDB> '') []"
  by code_simp

text \<open>
  C6, amended. For every line as the reader delivers it whose tokens are \<^verbatim>\<open>insert\<close> and
  three arguments, the second and third fitting their fields, where the first argument
  is not valid numeric text and does not start with a non-zero number (after leading
  white space and one optional sign, its leading decimal digits, if there are any, are
  all \<^verbatim>\<open>0\<close>), the command is accepted and the echoed ID is 0.
\<close>

theorem insert_without_number_gives_zero:
  assumes "read_line stdin = Some (line, rest)"
    and "tokens line = [''insert'', a, u, e]"
    and "\<not> spec_numeric_text a"
    and "list_all (\<lambda>c. c = CHR ''0'') (leading_digits a)"
    and "length u < USERNAME_SIZE"
    and "length e < EMAIL_SIZE"
  shows "loop_body stdin =
     Again (''inserted ID 0, user '' @ u @ '', email '' @ e @ [NL] @ prompt) rest"
  using assms
  by (simp add: loop_body_read exec_line_tokens inserted_def atoi_zero_digits show_int_0)

theorem insert_without_number_gives_zero_witness:
  "read_line (''insert abc bob b@x'' @ [NL]) = Some (''insert abc bob b@x'', [])
   \<and> tokens ''insert abc bob b@x'' = [''insert'', ''abc'', ''bob'', ''b@x'']
   \<and> \<not> spec_numeric_text ''abc''
   \<and> list_all (\<lambda>c. c = CHR ''0'') (leading_digits ''abc'')
   \<and> length ''bob'' < USERNAME_SIZE \<and> length ''b@x'' < EMAIL_SIZE
   \<and> loop_body (''insert abc bob b@x'' @ [NL]) =
        Again (''inserted ID 0, user bob, email b@x'' @ [NL] @ ''NanoDB> '') []
   \<and> read_line (''insert 0abc bob b@x'' @ [NL]) = Some (''insert 0abc bob b@x'', [])
   \<and> tokens ''insert 0abc bob b@x'' = [''insert'', ''0abc'', ''bob'', ''b@x'']
   \<and> \<not> spec_numeric_text ''0abc''
   \<and> list_all (\<lambda>c. c = CHR ''0'') (leading_digits ''0abc'')
   \<and> loop_body (''insert 0abc bob b@x'' @ [NL]) =
        Again (''inserted ID 0, user bob, email b@x'' @ [NL] @ ''NanoDB> '') []"
proof -
  have h1: "read_line (''insert abc bob b@x'' @ [NL]) = Some (''insert abc bob b@x'', [])"
    by code_simp
  have h2: "tokens ''insert abc bob b@x'' = [''insert'', ''abc'', ''bob'', ''b@x'']"
    by code_simp
  have h3: "\<not> spec_numeric_text ''abc''"
    by code_simp
  have h4: "list_all (\<lambda>c. c = CHR ''0'') (leading_digits ''abc'')"
    by code_simp
  have h5: "length ''bob'' < USERNAME_SIZE"
    by (simp add: USERNAME_SIZE_def)
  have h6: "length ''b@x'' < EMAIL_SIZE"
    by (simp add: EMAIL_SIZE_def)
  have k1: "read_line (''insert 0abc bob b@x'' @ [NL]) = Some (''insert 0abc bob b@x'', [])"
    by code_simp
  have k2: "tokens ''insert 0abc bob b@x'' = [''insert'', ''0abc'', ''bob'', ''b@x'']"
    by code_simp
  have k3: "\<not> spec_numeric_text ''0abc''"
    by code_simp
  have k4: "list_all (\<lambda>c. c = CHR ''0'') (leading_digits ''0abc'')"
    by code_simp
  have a: "loop_body (''insert abc bob b@x'' @ [NL]) =
        Again (''inserted ID 0, user bob, email b@x'' @ [NL] @ ''NanoDB> '') []"
    using insert_without_number_gives_zero [OF h1 h2 h3 h4 h5 h6] by (simp add: prompt_def)
  have b: "loop_body (''insert 0abc bob b@x'' @ [NL]) =
        Again (''inserted ID 0, user bob, email b@x'' @ [NL] @ ''NanoDB> '') []"
    using insert_without_number_gives_zero [OF k1 k2 k3 k4 h5 h6] by (simp add: prompt_def)
  show ?thesis
    by (intro conjI) (fact h1 h2 h3 h4 h5 h6 k1 k2 k3 k4 a b)+
qed



text \<open>
  C8. Nothing checks a token against the size of the field it is copied into. On a line
  whose first token is \<^verbatim>\<open>insert\<close>, with three or more arguments of which the first
  converts to an \<^verbatim>\<open>int\<close> and the second has 32 bytes or more, the program reaches
  \<^verbatim>\<open>strcpy(row.username, username)\<close>, which stores the token and its NUL, more than the
  32 bytes of the field: the copy runs past the end of the field, and nothing has been
  printed for the line.
\<close>

theorem username_copy_overruns:
  assumes "text_line line"
    and "tokens line = ''insert'' # a # u # e # extra"
    and "atoi a = Some n"
    and "USERNAME_SIZE \<le> length u"
  shows "loop_body (line @ NL # rest) = Done [] (Undefined (ArrayOverrun 32 (length u + 1)))
     \<and> 32 < length u + 1"
  using assms by (simp add: loop_body_insert USERNAME_SIZE_def)

theorem username_copy_overruns_witness:
  "text_line (''insert 1 '' @ replicate 32 (CHR ''a'') @ '' a@b'')
   \<and> tokens (''insert 1 '' @ replicate 32 (CHR ''a'') @ '' a@b'')
       = ''insert'' # ''1'' # replicate 32 (CHR ''a'') # ''a@b'' # []
   \<and> atoi ''1'' = Some 1
   \<and> USERNAME_SIZE \<le> length (replicate 32 (CHR ''a''))
   \<and> loop_body ((''insert 1 '' @ replicate 32 (CHR ''a'') @ '' a@b'') @ [NL])
       = Done [] (Undefined (ArrayOverrun 32 33))"
proof -
  have h1: "text_line (''insert 1 '' @ replicate 32 (CHR ''a'') @ '' a@b'')"
    by (simp add: text_line_def BUF_SIZE_def)
  have h2: "tokens (''insert 1 '' @ replicate 32 (CHR ''a'') @ '' a@b'')
       = ''insert'' # ''1'' # replicate 32 (CHR ''a'') # ''a@b'' # []"
    by code_simp
  have h3: "atoi ''1'' = Some 1"
    by code_simp
  have h4: "USERNAME_SIZE \<le> length (replicate 32 (CHR ''a''))"
    by (simp add: USERNAME_SIZE_def)
  show ?thesis
    using username_copy_overruns [OF h1 h2 h3 h4, of "[]"] h1 h2 h3 h4
    by simp
qed

text \<open>
  C9. As stated, for every input line, the claim fails on a physical line of 255 bytes
  or more: on \<^verbatim>\<open>insert 1 alice\<close>, an email token of 240 bytes and then \<^verbatim>\<open>bob 42\<close>, the
  read ends with the email token, and the two extra tokens are not ignored: they are
  read as the next line, and the program reports \<^verbatim>\<open>bob\<close> as an unrecognized command.
\<close>

theorem extra_tokens_after_buffer_reported:
  "tokens (''insert 1 alice '' @ replicate 240 (CHR ''e'') @ '' bob 42'')
     = [''insert'', ''1'', ''alice'', replicate 240 (CHR ''e''), ''bob'', ''42'']
   \<and> atoi ''1'' = Some 1
   \<and> length ''alice'' < USERNAME_SIZE
   \<and> length (replicate 240 (CHR ''e'')) < EMAIL_SIZE
   \<and> main ((''insert 1 alice '' @ replicate 240 (CHR ''e'') @ '' bob 42'') @ [NL])
     = (''NanoDB> '' @ ''inserted ID 1, user alice, email '' @ replicate 240 (CHR ''e'') @ [NL]
          @ ''NanoDB> '' @ ''Unrecognized command '' @ [QUOTE] @ ''bob'' @ [QUOTE] @ ''.'' @ [NL]
          @ ''NanoDB> '', Returned 0)"
  by code_simp

text \<open>
  C9, amended. For every line as the reader delivers it whose first token is
  \<^verbatim>\<open>insert\<close>, followed by four or more tokens, only the first three arguments count:
  the program does what it does when the read delivers a line with just these three
  arguments, and where they fit their fields it prints the \<^verbatim>\<open>inserted\<close> line for them
  and the prompt, with no diagnostic and nothing of the tokens that follow.
\<close>

theorem insert_ignores_extra_tokens:
  assumes "read_line stdin = Some (line, rest)"
    and "tokens line = ''insert'' # a # u # e # x # xs"
    and "read_line stdin3 = Some (line3, rest)"
    and "tokens line3 = [''insert'', a, u, e]"
  shows "loop_body stdin = loop_body stdin3
     \<and> (atoi a = Some n \<and> length u < USERNAME_SIZE \<and> length e < EMAIL_SIZE \<longrightarrow>
          loop_body stdin =
            Again (''inserted ID '' @ show_int n @ '', user '' @ u @ '', email '' @ e @ [NL]
                     @ prompt) rest)"
  using assms by (simp add: loop_body_read exec_line_tokens inserted_def)

theorem insert_ignores_extra_tokens_witness:
  "read_line (''insert 1 alice a@b.c bob 42'' @ [NL]) = Some (''insert 1 alice a@b.c bob 42'', [])
   \<and> tokens ''insert 1 alice a@b.c bob 42'' = ''insert'' # ''1'' # ''alice'' # ''a@b.c'' # ''bob'' # [''42'']
   \<and> read_line (''insert 1 alice a@b.c'' @ [NL]) = Some (''insert 1 alice a@b.c'', [])
   \<and> tokens ''insert 1 alice a@b.c'' = [''insert'', ''1'', ''alice'', ''a@b.c'']
   \<and> atoi ''1'' = Some 1 \<and> length ''alice'' < USERNAME_SIZE \<and> length ''a@b.c'' < EMAIL_SIZE
   \<and> loop_body (''insert 1 alice a@b.c bob 42'' @ [NL]) = loop_body (''insert 1 alice a@b.c'' @ [NL])
   \<and> loop_body (''insert 1 alice a@b.c bob 42'' @ [NL]) =
        Again (''inserted ID 1, user alice, email a@b.c'' @ [NL] @ ''NanoDB> '') []"
proof -
  have h1: "read_line (''insert 1 alice a@b.c bob 42'' @ [NL]) = Some (''insert 1 alice a@b.c bob 42'', [])"
    by code_simp
  have h2: "tokens ''insert 1 alice a@b.c bob 42''
      = ''insert'' # ''1'' # ''alice'' # ''a@b.c'' # ''bob'' # [''42'']"
    by code_simp
  have h3: "read_line (''insert 1 alice a@b.c'' @ [NL]) = Some (''insert 1 alice a@b.c'', [])"
    by code_simp
  have h4: "tokens ''insert 1 alice a@b.c'' = [''insert'', ''1'', ''alice'', ''a@b.c'']"
    by code_simp
  have h5: "atoi ''1'' = Some 1"
    by code_simp
  have h6: "length ''alice'' < USERNAME_SIZE"
    by (simp add: USERNAME_SIZE_def)
  have h7: "length ''a@b.c'' < EMAIL_SIZE"
    by (simp add: EMAIL_SIZE_def)
  have s: "show_int 1 = ''1''"
    by code_simp
  note both = insert_ignores_extra_tokens [OF h1 h2 h3 h4, of 1]
  have same: "loop_body (''insert 1 alice a@b.c bob 42'' @ [NL]) = loop_body (''insert 1 alice a@b.c'' @ [NL])"
    using both [THEN conjunct1] by simp
  have echo: "loop_body (''insert 1 alice a@b.c bob 42'' @ [NL]) =
        Again (''inserted ID 1, user alice, email a@b.c'' @ [NL] @ ''NanoDB> '') []"
    using both [THEN conjunct2] h5 h6 h7 by (simp add: s prompt_def)
  show ?thesis
    by (intro conjI) (fact h1 h2 h3 h4 h5 h6 h7 same echo)+
qed



section \<open>A further property: the email field\<close>

lemma spec_tokens_length: "sum_list (map length (spec_tokens sep s)) \<le> length s"
proof (induction sep s rule: spec_tokens.induct)
  case (1 sep s)
  show ?case
  proof (cases "dropWhile sep s")
    case Nil
    show ?thesis
      by (subst spec_tokens.simps) (simp add: Nil del: dropWhile_eq_Nil_conv)
  next
    case (Cons c cs)
    have "length (takeWhile (\<lambda>x. \<not> sep x) cs) + length (dropWhile (\<lambda>x. \<not> sep x) cs) = length cs"
      by (metis length_append takeWhile_dropWhile_id)
    moreover have "length (c # cs) \<le> length s"
      by (metis Cons length_dropWhile_le)
    ultimately show ?thesis
      using "1.IH" [OF Cons]
      by (subst spec_tokens.simps) (simp add: Cons del: dropWhile_eq_Nil_conv)
  qed
qed

lemma read_line_length: "read_line stdin = Some (line, rest) \<Longrightarrow> length line \<le> 255"
proof -
  assume a: "read_line stdin = Some (line, rest)"
  obtain bytes r where f: "fgets_read 255 stdin = (bytes, r)"
    by (cases "fgets_read 255 stdin")
  have "bytes \<noteq> []"
    using a f by (auto simp: read_line_def fgets_def BUF_SIZE_def)
  then have "read_line stdin = Some (takeWhile (\<lambda>c. c \<noteq> NL \<and> c \<noteq> NUL) bytes, r)"
    using f by (simp add: read_line_fgets_read)
  with a have "line = takeWhile (\<lambda>c. c \<noteq> NL \<and> c \<noteq> NUL) bytes"
    by simp
  then have "length line \<le> length bytes"
    by (simp add: length_takeWhile_le)
  then show ?thesis
    using fgets_read_shape [OF f] by simp
qed

text \<open>
  The copy into \<^verbatim>\<open>email\<close> cannot overrun when \<^verbatim>\<open>main\<close> runs: a line read into the
  256-byte buffer has at most 255 bytes, of which \<^verbatim>\<open>insert\<close> and the two arguments
  before it take their share, so the third argument and its NUL fit the 255-byte field.
\<close>

theorem email_copy_in_bounds:
  assumes "read_line stdin = Some (line, rest)"
    and "tokens line = ''insert'' # a # u # e # extra"
  shows "strcpy EMAIL_SIZE e = Inr e"
proof -
  have "sum_list (map length (tokens line)) \<le> length line"
    unfolding tokens_def by (rule spec_tokens_length)
  then have "6 + length e \<le> length line"
    using assms(2) by simp
  then show ?thesis
    using read_line_length [OF assms(1)] by (simp add: strcpy_def EMAIL_SIZE_def)
qed

theorem email_copy_in_bounds_witness:
  "read_line (''insert 1 alice alice@example.com'' @ [NL]) = Some (''insert 1 alice alice@example.com'', [])
   \<and> tokens ''insert 1 alice alice@example.com'' = ''insert'' # ''1'' # ''alice'' # ''alice@example.com'' # []
   \<and> strcpy EMAIL_SIZE ''alice@example.com'' = Inr ''alice@example.com''"
proof -
  have h1: "read_line (''insert 1 alice alice@example.com'' @ [NL]) = Some (''insert 1 alice alice@example.com'', [])"
    by code_simp
  have h2: "tokens ''insert 1 alice alice@example.com'' = ''insert'' # ''1'' # ''alice'' # ''alice@example.com'' # []"
    by code_simp
  show ?thesis
    using email_copy_in_bounds [OF h1 h2] h1 h2 by (intro conjI)
qed

end
